theory Spec2Isabelle
  imports Main "HOL-Library.AList"
begin

section \<open>Data model\<close>

text \<open>
  One entry of the platform's activity feed, as the code reads it with
  \<^verbatim>\<open>activity.get(...)\<close>: the keys \<^verbatim>\<open>id\<close>, \<^verbatim>\<open>object_type\<close>, \<^verbatim>\<open>type\<close> and
  \<^verbatim>\<open>name\<close>. The identifier is a JSON integer; a key other than \<^verbatim>\<open>id\<close> that is
  missing reads as \<^verbatim>\<open>None\<close>. The user-flag and the root-flag event of one machine
  carry the same identifier (the machine's), which is why the code keeps the
  user flags under a composite key.
\<close>

record activity =
  a_id :: int
  a_object_type :: "string option"
  a_type :: "string option"
  a_name :: "string option"

text \<open>
  One value of \<^verbatim>\<open>db["users"]\<close>, with the keys that \<^verbatim>\<open>track\<close> writes. The
  counters only ever receive \<^verbatim>\<open>0\<close>, a \<^verbatim>\<open>len(...)\<close> or an increment, so they are
  natural numbers. A missing \<^verbatim>\<open>user_flag_ids\<close> or \<^verbatim>\<open>root_flag_ids\<close> is read as
  the empty list everywhere (\<^verbatim>\<open>.get(..., [])\<close> and the migration in
  \<^verbatim>\<open>load_db\<close>), so both fields are plain lists here.
\<close>

record user =
  name :: string
  discord_id :: "int option"
  machines :: nat
  challenges :: nat
  streak :: nat
  solved_ids :: "int list"
  user_flag_ids :: "string list"
  root_flag_ids :: "int list"

text \<open>
  \<^verbatim>\<open>db["users"]\<close> is a dictionary in insertion order: an association list whose
  keys are the platform identifiers.
\<close>

type_synonym users = "(string \<times> user) list"

definition GOAL_MACHINES :: nat where
  "GOAL_MACHINES = 1"

definition GOAL_CHALLENGES :: nat where
  "GOAL_CHALLENGES = 2"

section \<open>Strings\<close>

text \<open>
  The decimal text of an integer, as the f-string \<^verbatim>\<open>f"{act_id}_user"\<close> produces
  it, and the three string operations of the reconciliation's filter:
  \<^verbatim>\<open>"_user" in uid\<close>, \<^verbatim>\<open>uid.split("_")[0]\<close> and \<^verbatim>\<open>.isdigit()\<close> followed by
  \<^verbatim>\<open>int(...)\<close>. Characters are ASCII.
\<close>

definition digit_char :: "nat \<Rightarrow> char" where
  "digit_char d = ''0123456789'' ! d"

function str_nat :: "nat \<Rightarrow> string" where
  "str_nat n = (if n < 10 then [digit_char n] else str_nat (n div 10) @ [digit_char (n mod 10)])"
  by pat_completeness auto
termination
  by (relation "measure (\<lambda>n. n)") auto

definition str_int :: "int \<Rightarrow> string" where
  "str_int i = (if i < 0 then CHR ''-'' # str_nat (nat (- i)) else str_nat (nat i))"

definition user_flag_key :: "int \<Rightarrow> string" where
  "user_flag_key i = str_int i @ ''_user''"

fun contains :: "string \<Rightarrow> string \<Rightarrow> bool" where
  "contains p [] = (p = [])"
| "contains p (c # cs) = (take (length p) (c # cs) = p \<or> contains p cs)"

definition split_head :: "string \<Rightarrow> string" where
  "split_head uid = takeWhile (\<lambda>c. c \<noteq> CHR ''_'') uid"

definition is_digit_char :: "char \<Rightarrow> bool" where
  "is_digit_char c = (c \<in> set ''0123456789'')"

definition isdigit :: "string \<Rightarrow> bool" where
  "isdigit s = (s \<noteq> [] \<and> list_all is_digit_char s)"

definition digit_val :: "char \<Rightarrow> int" where
  "digit_val c = int (of_char c) - 48"

definition int_of_str :: "string \<Rightarrow> int" where
  "int_of_str s = foldl (\<lambda>acc c. 10 * acc + digit_val c) 0 s"

section \<open>Ingestion loop\<close>

text \<open>
  What one notification of the ingestion loop carries: which kind of solve it
  announces, the activity's name, and the counters and streak it displays. The
  wording, colour, avatar and challenge category of the embed are left out.
\<close>

datatype display = UserFlag | RootFlag | MachineActivity | Challenge | Other string

record notification =
  n_display :: display
  n_name :: "string option"
  m_prog :: nat
  c_prog :: nat
  n_streak :: nat

datatype message =
  Activity notification
| Report "(string \<times> nat) list" "(string \<times> nat \<times> nat) list"
| Shame "int list"

text \<open>
  \<^verbatim>\<open>AttributeError\<close>: \<^verbatim>\<open>act_type.capitalize()\<close> on an activity without
  \<^verbatim>\<open>object_type\<close>. \<^verbatim>\<open>HTTPException\<close>: \<^verbatim>\<open>channel.send\<close> could not deliver.
\<close>

datatype error = AttributeError | HTTPException

text \<open>The test at the head of the loop body (\<^verbatim>\<open>already_processed\<close>).\<close>

definition already_processed :: "user \<Rightarrow> activity \<Rightarrow> bool" where
  "already_processed user_data a =
     (if a_object_type a = Some ''machine'' \<and> a_type a = Some ''user''
      then user_flag_key (a_id a) \<in> set (user_flag_ids user_data)
      else a_id a \<in> set (solved_ids user_data))"

text \<open>
  The branch on the activity's kind: the counter it increments, whether the
  identifier is to be recorded as solved (\<^verbatim>\<open>should_count\<close>) and what is
  displayed.
\<close>

definition count_activity :: "user \<Rightarrow> activity \<Rightarrow> error + (user \<times> bool \<times> display)" where
  "count_activity user_data a =
     (if a_object_type a = Some ''machine'' then
        (if a_type a = Some ''user'' then Inr (user_data, False, UserFlag)
         else if a_type a = Some ''root'' then
           Inr (user_data\<lparr>machines := machines user_data + 1,
                  root_flag_ids :=
                    (if a_id a \<notin> set (root_flag_ids user_data)
                     then sort (root_flag_ids user_data @ [a_id a])
                     else root_flag_ids user_data)\<rparr>, True, RootFlag)
         else Inr (user_data, True, MachineActivity))
      else if a_object_type a = Some ''challenge'' then
        Inr (user_data\<lparr>challenges := challenges user_data + 1\<rparr>, True, Challenge)
      else (case a_object_type a of
              None \<Rightarrow> Inl AttributeError
            | Some t \<Rightarrow> Inr (user_data, True, Other t)))"

text \<open>Recording the identifier so that the activity is not announced again.\<close>

definition remember_activity :: "user \<Rightarrow> activity \<Rightarrow> bool \<Rightarrow> user" where
  "remember_activity user_data a should_count =
     (if should_count then user_data\<lparr>solved_ids := solved_ids user_data @ [a_id a]\<rparr>
      else if user_flag_key (a_id a) \<notin> set (user_flag_ids user_data)
      then user_data\<lparr>user_flag_ids := user_flag_ids user_data @ [user_flag_key (a_id a)]\<rparr>
      else user_data)"

text \<open>
  The in-memory part of one iteration of the loop over the activities: the new
  user record, and the notification to send (\<open>None\<close> when the activity was
  already processed, in which case nothing happens at all).
\<close>

definition process_activity :: "user \<Rightarrow> activity \<Rightarrow> error + (user \<times> notification option)" where
  "process_activity user_data a =
     (if already_processed user_data a then Inr (user_data, None)
      else (case count_activity user_data a of
              Inl e \<Rightarrow> Inl e
            | Inr (u1, should_count, d) \<Rightarrow>
                (let u2 = remember_activity u1 a should_count
                 in Inr (u2, Some \<lparr>n_display = d, n_name = a_name a,
                                   m_prog = machines u2, c_prog = challenges u2,
                                   n_streak = streak u2\<rparr>))))"

text \<open>
  The process state: the ledger in memory (\<^verbatim>\<open>db["users"]\<close>), the ledger on disk
  with the number of \<^verbatim>\<open>save_db\<close> calls so far, and the messages delivered to the
  channel.
\<close>

record sys =
  mem :: users
  disk :: users
  saves :: nat
  sent :: "message list"

definition save_db :: "sys \<Rightarrow> sys" where
  "save_db s = s\<lparr>disk := mem s, saves := saves s + 1\<rparr>"

text \<open>
  \<^verbatim>\<open>await channel.send(...)\<close>: the message is delivered, or the call raises and
  nothing after it in the caller runs. Whether a message can be delivered is
  the environment's choice, \<open>deliver\<close>.
\<close>

definition send :: "(message \<Rightarrow> bool) \<Rightarrow> message \<Rightarrow> sys \<Rightarrow> error + sys" where
  "send deliver m s = (if deliver m then Inr (s\<lparr>sent := sent s @ [m]\<rparr>) else Inl HTTPException)"

text \<open>
  One iteration of the loop over a user's activities. \<^verbatim>\<open>user_data\<close> is the
  object stored under \<^verbatim>\<open>db["users"][htb_id]\<close>, so a change to it is a change to
  the ledger in memory. The notification is sent first and the ledger saved
  after it. An exception leaves the loop with the state reached so far. The
  loop is taken to run without a command changing the ledger while it waits
  on the channel.
\<close>

definition handle_activity ::
  "(message \<Rightarrow> bool) \<Rightarrow> string \<Rightarrow> user \<times> sys \<Rightarrow> activity \<Rightarrow> (error \<times> user \<times> sys) + (user \<times> sys)" where
  "handle_activity deliver htb_id st a =
     (case st of (user_data, s) \<Rightarrow>
        (case process_activity user_data a of
           Inl e \<Rightarrow> Inl (e, user_data, s)
         | Inr (u', None) \<Rightarrow> Inr (user_data, s)
         | Inr (u', Some n) \<Rightarrow>
             (let s1 = s\<lparr>mem := AList.update htb_id u' (mem s)\<rparr>
              in (case send deliver (Activity n) s1 of
                    Inl e \<Rightarrow> Inl (e, u', s1)
                  | Inr s2 \<Rightarrow> Inr (u', save_db s2)))))"

fun scan_activities ::
  "(message \<Rightarrow> bool) \<Rightarrow> string \<Rightarrow> user \<times> sys \<Rightarrow> activity list \<Rightarrow> (error \<times> user \<times> sys) + (user \<times> sys)" where
  "scan_activities deliver htb_id st [] = Inr st"
| "scan_activities deliver htb_id st (a # as) =
     (case handle_activity deliver htb_id st a of
        Inl e \<Rightarrow> Inl e
      | Inr st' \<Rightarrow> scan_activities deliver htb_id st' as)"

text \<open>
  The loop over the tracked users. \<open>fetch\<close> is \<^verbatim>\<open>get_user_activity\<close>: the feed,
  newest first, or \<open>None\<close>. The activities are processed oldest first
  (\<^verbatim>\<open>reversed(activities)\<close>).
\<close>

fun scan_users ::
  "(string \<Rightarrow> activity list option) \<Rightarrow> (message \<Rightarrow> bool) \<Rightarrow> users \<Rightarrow> sys \<Rightarrow> (error \<times> sys) + sys" where
  "scan_users fetch deliver [] s = Inr s"
| "scan_users fetch deliver ((htb_id, user_data) # rest) s =
     (case fetch htb_id of
        None \<Rightarrow> scan_users fetch deliver rest s
      | Some activities \<Rightarrow>
          (case scan_activities deliver htb_id (user_data, s) (rev activities) of
             Inl (e, u', s') \<Rightarrow> Inl (e, s')
           | Inr (u', s') \<Rightarrow> scan_users fetch deliver rest s'))"

definition check_htb_activity ::
  "bool \<Rightarrow> (string \<Rightarrow> activity list option) \<Rightarrow> (message \<Rightarrow> bool) \<Rightarrow> sys \<Rightarrow> (error \<times> sys) + sys" where
  "check_htb_activity channel fetch deliver s =
     (if \<not> channel then Inr s else scan_users fetch deliver (mem s) s)"

section \<open>Registration\<close>

text \<open>
  The registration step of \<^verbatim>\<open>track\<close>, once the direct-message dialogue has
  produced a platform identifier and the profile lookup a name: a user that is
  not tracked yet is created with the identifiers of the current feed as
  \<^verbatim>\<open>solved_ids\<close>, and the ledger is saved.
\<close>

definition track ::
  "(string \<Rightarrow> activity list option) \<Rightarrow> string \<Rightarrow> string \<Rightarrow> int \<Rightarrow> sys \<Rightarrow> sys" where
  "track fetch htb_id htb_name author s =
     (if htb_id \<notin> fst ` set (mem s) then
        (let initial_activity = fetch htb_id;
             existing_ids = (case initial_activity of
                               None \<Rightarrow> []
                             | Some acts \<Rightarrow> if acts = [] then [] else map a_id acts)
         in save_db (s\<lparr>mem := AList.update htb_id
                         \<lparr>name = htb_name, discord_id = Some author, machines = 0,
                          challenges = 0, streak = 0, solved_ids = existing_ids,
                          user_flag_ids = [], root_flag_ids = []\<rparr> (mem s)\<rparr>))
      else s)"

section \<open>Weekly reset\<close>

text \<open>
  One iteration of the loop of \<^verbatim>\<open>perform_reset_logic\<close>, on the three report
  lists. An entry of \<^verbatim>\<open>completed_list\<close> is the name with the new streak, an
  entry of \<^verbatim>\<open>failed_list\<close> the name with the two counts, an entry of
  \<^verbatim>\<open>loser_mentions\<close> the owner's chat identity.
\<close>

type_synonym report = "(string \<times> nat) list \<times> (string \<times> nat \<times> nat) list \<times> int list"

definition goals_met :: "nat \<Rightarrow> nat \<Rightarrow> bool" where
  "goals_met m_count c_count = (m_count \<ge> GOAL_MACHINES \<and> c_count \<ge> GOAL_CHALLENGES)"

definition reset_user :: "user \<Rightarrow> report \<Rightarrow> user \<times> report" where
  "reset_user user acc =
     (case acc of (completed_list, failed_list, loser_mentions) \<Rightarrow>
        (let m_count = machines user;
             c_count = challenges user
         in if goals_met m_count c_count then
              (let user1 = user\<lparr>streak := streak user + 1\<rparr>
               in (user1\<lparr>machines := 0, challenges := 0\<rparr>,
                   completed_list @ [(name user1, streak user1)], failed_list, loser_mentions))
            else
              (let user1 = user\<lparr>streak := 0\<rparr>
               in (user1\<lparr>machines := 0, challenges := 0\<rparr>,
                   completed_list, failed_list @ [(name user1, m_count, c_count)],
                   (case discord_id user1 of
                      Some d \<Rightarrow> loser_mentions @ [d]
                    | None \<Rightarrow> loser_mentions)))))"

fun reset_loop :: "users \<Rightarrow> report \<Rightarrow> users \<times> report" where
  "reset_loop [] acc = ([], acc)"
| "reset_loop ((uid, user) # rest) acc =
     (case reset_user user acc of (user', acc') \<Rightarrow>
        (case reset_loop rest acc' of (rest', acc'') \<Rightarrow> ((uid, user') # rest', acc'')))"

text \<open>
  The ledger is saved once, after the loop; the report is sent after that, and
  the mentions of the owners who missed the goals when there are any.
\<close>

definition perform_reset_logic :: "(message \<Rightarrow> bool) \<Rightarrow> sys \<Rightarrow> (error \<times> sys) + sys" where
  "perform_reset_logic deliver s =
     (case reset_loop (mem s) ([], [], []) of
        (users', completed_list, failed_list, loser_mentions) \<Rightarrow>
          (let s1 = save_db (s\<lparr>mem := users'\<rparr>)
           in (case send deliver (Report completed_list failed_list) s1 of
                 Inl e \<Rightarrow> Inl (e, s1)
               | Inr s2 \<Rightarrow>
                   if loser_mentions \<noteq> [] then
                     (case send deliver (Shame loser_mentions) s2 of
                        Inl e \<Rightarrow> Inl (e, s2)
                      | Inr s3 \<Rightarrow> Inr s3)
                   else Inr s2)))"

section \<open>Reset scheduler\<close>

text \<open>
  The local date and time in Europe/Athens at which the task library runs the
  body of \<^verbatim>\<open>scheduled_weekly_reset\<close>. The date is its proleptic Gregorian
  ordinal, from which \<^verbatim>\<open>weekday()\<close> is computed (0 is Monday, 5 is Saturday).
\<close>

record clock =
  ordinal :: nat
  hour :: nat
  minute :: nat

definition weekday :: "clock \<Rightarrow> nat" where
  "weekday now = (ordinal now + 6) mod 7"

text \<open>
  The body of the scheduled task. The process keeps no other scheduler state:
  the body reads the weekday and looks the channel up, nothing else.
\<close>

definition scheduled_weekly_reset ::
  "bool \<Rightarrow> (message \<Rightarrow> bool) \<Rightarrow> clock \<Rightarrow> sys \<Rightarrow> (error \<times> sys) + sys" where
  "scheduled_weekly_reset channel deliver now_greece s =
     (if weekday now_greece = 5 then
        (if channel then perform_reset_logic deliver s else Inr s)
      else Inr s)"

text \<open>
  The decorator on the task, \<^verbatim>\<open>tasks.loop(time=time(hour=21, minute=0,
  tzinfo=greece_tz))\<close>, has the task library run the body once per calendar
  day, at 21:00 local time. The runs of the task are the list of their local
  dates and times: dates strictly increasing, each at 21:00.
\<close>

definition daily_at_21 :: "clock list \<Rightarrow> bool" where
  "daily_at_21 runs =
     (sorted_wrt (\<lambda>t t'. ordinal t < ordinal t') runs
      \<and> list_all (\<lambda>t. hour t = 21 \<and> minute t = 0) runs)"

definition state_after :: "(error \<times> sys) + sys \<Rightarrow> sys" where
  "state_after r = (case r of Inl (e, s) \<Rightarrow> s | Inr s \<Rightarrow> s)"

text \<open>
  The task over its runs, with the dates on which a run reset the ledger (a
  reset saves the ledger, a run that does not reset saves nothing).
  \<open>channel\<close> tells for each run whether the channel is found. An exception
  out of the body ends the task.
\<close>

fun scheduler_task ::
  "(clock \<Rightarrow> bool) \<Rightarrow> (message \<Rightarrow> bool) \<Rightarrow> clock list \<Rightarrow> sys
     \<Rightarrow> nat list \<times> ((error \<times> sys) + sys)" where
  "scheduler_task channel deliver [] s = ([], Inr s)"
| "scheduler_task channel deliver (now_greece # later) s =
     (let r = scheduled_weekly_reset (channel now_greece) deliver now_greece s;
          fired = (if saves (state_after r) = saves s then [] else [ordinal now_greece])
      in (case r of
            Inl e \<Rightarrow> (fired, Inl e)
          | Inr s' \<Rightarrow>
              (case scheduler_task channel deliver later s' of
                 (dates, r') \<Rightarrow> (fired @ dates, r'))))"

section \<open>Reconciliation\<close>

text \<open>
  The machine identifiers read back from the composite user-flag keys
  (\<^verbatim>\<open>user_flag_machine_ids\<close>).
\<close>

definition user_flag_machine_ids :: "string list \<Rightarrow> int set" where
  "user_flag_machine_ids ufs =
     set (map (\<lambda>uid. int_of_str (split_head uid))
            (filter (\<lambda>uid. contains ''_user'' uid \<and> isdigit (split_head uid)) ufs))"

text \<open>
  One iteration of the loop over the fetched history. \<^verbatim>\<open>root_flags\<close> is a
  dictionary from identifier to name, \<^verbatim>\<open>challenge_ids\<close> a set.
\<close>

definition collect_activity ::
  "int set \<Rightarrow> int set \<Rightarrow> activity \<Rightarrow> (int \<times> string option) list \<times> int set
     \<Rightarrow> (int \<times> string option) list \<times> int set" where
  "collect_activity solved user_flag_machines a acc =
     (case acc of (root_flags, challenge_ids) \<Rightarrow>
        if a_object_type a = Some ''machine'' \<and> a_type a = Some ''root'' then
          (if a_id a \<in> solved \<and> a_id a \<notin> user_flag_machines
           then (AList.update (a_id a) (a_name a) root_flags, challenge_ids)
           else (root_flags, challenge_ids))
        else if a_object_type a = Some ''challenge'' then
          (if a_id a \<in> solved
           then (root_flags, insert (a_id a) challenge_ids)
           else (root_flags, challenge_ids))
        else (root_flags, challenge_ids))"

definition collect ::
  "user \<Rightarrow> activity list \<Rightarrow> (int \<times> string option) list \<times> int set" where
  "collect user_data activities =
     fold (collect_activity (set (solved_ids user_data))
                            (user_flag_machine_ids (user_flag_ids user_data)))
          activities ([], {})"

text \<open>
  The update of one user from what was collected, with \<^verbatim>\<open>needs_update\<close>.
\<close>

definition update_root_flags :: "user \<Rightarrow> (int \<times> string option) list \<Rightarrow> user \<times> bool" where
  "update_root_flags user_data root_flags =
     (if root_flags \<noteq> [] then
        (let new_root_flag_ids = sort (map fst root_flags);
             old_root_flag_ids = sort (root_flag_ids user_data);
             root_flag_count = length new_root_flag_ids;
             (u1, n1) = (if new_root_flag_ids \<noteq> old_root_flag_ids
                         then (user_data\<lparr>root_flag_ids := new_root_flag_ids\<rparr>, True)
                         else (user_data, False));
             current_machines = machines u1
         in if current_machines \<noteq> root_flag_count
            then (u1\<lparr>machines := root_flag_count\<rparr>, True)
            else (u1, n1))
      else
        (let (u1, n1) = (if root_flag_ids user_data \<noteq> []
                         then (user_data\<lparr>root_flag_ids := []\<rparr>, True)
                         else (user_data, False))
         in if machines u1 > 0 then (u1\<lparr>machines := 0\<rparr>, True) else (u1, n1)))"

definition update_challenges :: "user \<times> bool \<Rightarrow> int set \<Rightarrow> user \<times> bool" where
  "update_challenges st challenge_ids =
     (case st of (user_data, needs_update) \<Rightarrow>
        (let challenge_count = card challenge_ids;
             current_challenges = challenges user_data
         in if current_challenges \<noteq> challenge_count
            then (user_data\<lparr>challenges := challenge_count\<rparr>, True)
            else (user_data, needs_update)))"

text \<open>
  The body of the loop over the users: a fetch that fails or returns nothing
  skips the user (\<^verbatim>\<open>continue\<close>).
\<close>

definition reconcile_user :: "user \<Rightarrow> activity list option \<Rightarrow> user \<times> bool" where
  "reconcile_user user_data fetched =
     (case fetched of
        None \<Rightarrow> (user_data, False)
      | Some activities \<Rightarrow>
          if activities = [] then (user_data, False)
          else (case collect user_data activities of
                  (root_flags, challenge_ids) \<Rightarrow>
                    update_challenges (update_root_flags user_data root_flags) challenge_ids))"

fun reconcile_loop ::
  "(string \<Rightarrow> activity list option) \<Rightarrow> users \<Rightarrow> nat \<Rightarrow> users \<times> nat" where
  "reconcile_loop fetch [] updated_count = ([], updated_count)"
| "reconcile_loop fetch ((htb_id, user_data) # rest) updated_count =
     (case reconcile_user user_data (fetch htb_id) of
        (user', needs_update) \<Rightarrow>
          (case reconcile_loop fetch rest (if needs_update then updated_count + 1 else updated_count) of
             (rest', n) \<Rightarrow> ((htb_id, user') # rest', n)))"

text \<open>
  The whole job on the shared ledger: nothing to do without users, one save at
  the end when a user changed. The printed summary is left out.
\<close>

definition check_root_flags_manual :: "(string \<Rightarrow> activity list option) \<Rightarrow> sys \<Rightarrow> sys" where
  "check_root_flags_manual fetch s =
     (if mem s = [] then s
      else (case reconcile_loop fetch (mem s) 0 of
              (users', updated_count) \<Rightarrow>
                (let s1 = s\<lparr>mem := users'\<rparr>
                 in if updated_count > 0 then save_db s1 else s1)))"

section \<open>Example data\<close>

text \<open>
  A freshly tracked user, the two activities of one machine, a challenge, and a
  process state holding that user alone, for the concrete instances below.
\<close>

abbreviation neo :: user where
  "neo \<equiv> \<lparr>name = ''neo'', discord_id = Some 7, machines = 0, challenges = 0, streak = 0,
          solved_ids = [], user_flag_ids = [], root_flag_ids = []\<rparr>"

abbreviation lame_user :: activity where
  "lame_user \<equiv> \<lparr>a_id = 5, a_object_type = Some ''machine'', a_type = Some ''user'', a_name = Some ''Lame''\<rparr>"

abbreviation lame_root :: activity where
  "lame_root \<equiv> \<lparr>a_id = 5, a_object_type = Some ''machine'', a_type = Some ''root'', a_name = Some ''Lame''\<rparr>"

abbreviation puzzle :: activity where
  "puzzle \<equiv> \<lparr>a_id = 9, a_object_type = Some ''challenge'', a_type = Some ''challenge'', a_name = Some ''Puzzle''\<rparr>"



abbreviation sys0 :: sys where
  "sys0 \<equiv> \<lparr>mem = [(''1'', neo)], disk = [(''1'', neo)], saves = 0, sent = []\<rparr>"

text \<open>
  The environment of the concrete instances: a channel that delivers every
  message, one that delivers none, a platform that answers every fetch with
  the same feed, one that answers none, and a channel that is found at every
  run of the scheduled task.
\<close>

definition delivered :: "message \<Rightarrow> bool" where
  [simp]: "delivered m = True"

definition undelivered :: "message \<Rightarrow> bool" where
  [simp]: "undelivered m = False"

definition feed :: "activity list \<Rightarrow> string \<Rightarrow> activity list option" where
  [simp]: "feed activities htb_id = Some activities"

definition no_feed :: "string \<Rightarrow> activity list option" where
  [simp]: "no_feed htb_id = None"

definition found :: "clock \<Rightarrow> bool" where
  [simp]: "found now_greece = True"

section \<open>Unfolding the definitions on concrete inputs\<close>

lemma user_flag_key_5: "user_flag_key 5 = ''5_user''"
  by code_simp

lemmas ingest_defs = check_htb_activity_def handle_activity_def process_activity_def
  already_processed_def count_activity_def remember_activity_def send_def save_db_def

lemmas reconcile_defs = check_root_flags_manual_def reconcile_user_def collect_def
  collect_activity_def user_flag_machine_ids_def update_root_flags_def update_challenges_def
  split_head_def isdigit_def is_digit_char_def int_of_str_def digit_val_def

lemmas reset_defs = scheduled_weekly_reset_def weekday_def perform_reset_logic_def
  reset_user_def goals_met_def GOAL_MACHINES_def GOAL_CHALLENGES_def

section \<open>Properties of the ingestion loop\<close>

text \<open>
  C2. An activity that has been processed once is already processed when it
  comes again: whatever the first pass did with it (a counted solve, a user
  flag that is only announced, an unknown kind that is recorded), the second
  pass over the updated record returns it unchanged with no notification, and
  the loop iteration leaves the process state as it is (nothing sent, nothing
  saved).
\<close>

theorem replay_already_processed:
  assumes "process_activity u a = Inr (u', n)"
  shows "process_activity u' a = Inr (u', None)
       \<and> handle_activity deliver htb_id (u', s) a = Inr (u', s)"
proof -
  have "process_activity u' a = Inr (u', None)"
    using assms
    by (auto simp: process_activity_def already_processed_def count_activity_def
          remember_activity_def Let_def
        split: if_splits option.splits sum.splits prod.splits)
  then show ?thesis by (simp add: handle_activity_def)
qed

theorem replay_already_processed_witness:
  "process_activity neo puzzle =
     Inr (neo\<lparr>challenges := 1, solved_ids := [9]\<rparr>,
          Some \<lparr>n_display = Challenge, n_name = Some ''Puzzle'', m_prog = 0, c_prog = 1, n_streak = 0\<rparr>)
   \<and> process_activity (neo\<lparr>challenges := 1, solved_ids := [9]\<rparr>) puzzle =
       Inr (neo\<lparr>challenges := 1, solved_ids := [9]\<rparr>, None)
   \<and> handle_activity delivered ''1'' (neo\<lparr>challenges := 1, solved_ids := [9]\<rparr>, sys0) puzzle =
       Inr (neo\<lparr>challenges := 1, solved_ids := [9]\<rparr>, sys0)"
proof -
  have h: "process_activity neo puzzle =
     Inr (neo\<lparr>challenges := 1, solved_ids := [9]\<rparr>,
          Some \<lparr>n_display = Challenge, n_name = Some ''Puzzle'', m_prog = 0, c_prog = 1, n_streak = 0\<rparr>)"
    by (simp add: process_activity_def already_processed_def count_activity_def
          remember_activity_def)
  show ?thesis
    using h replay_already_processed[OF h, of delivered "''1''" sys0] by simp
qed




lemma delivered_activity_saved:
  assumes "handle_activity deliver htb_id (u, s) a = Inr (u', s')"
    and "process_activity u a = Inr (v, Some n)"
  shows "u' = v \<and> disk s' = mem s' \<and> saves s' = saves s + 1 \<and> sent s' = sent s @ [Activity n]"
  using assms
  by (auto simp: handle_activity_def send_def save_db_def Let_def split: if_splits)

text \<open>
  C8. The notification is sent before the ledger is saved. With a channel that
  does not deliver, a user with one new challenge in the feed ends the cycle
  with an exception: the challenge is counted and its identifier recorded in
  memory, and the ledger on disk is the old one, never saved.
\<close>

theorem undelivered_notification_loses_save:
  "check_htb_activity True (feed [puzzle]) undelivered sys0 =
     Inl (HTTPException,
          \<lparr>mem = [(''1'', neo\<lparr>challenges := 1, solved_ids := [9]\<rparr>)],
           disk = [(''1'', neo)], saves = 0, sent = []\<rparr>)"
  by (simp add: ingest_defs)

lemma seeded_activity_not_counted:
  assumes "a_id a \<in> set (solved_ids u)"
  shows "\<exists>u' n. process_activity u a = Inr (u', n)
           \<and> machines u' = machines u \<and> challenges u' = challenges u
           \<and> (\<not> (a_object_type a = Some ''machine'' \<and> a_type a = Some ''user'')
                \<longrightarrow> u' = u \<and> n = None)"
  using assms
  by (auto simp: process_activity_def already_processed_def count_activity_def
        remember_activity_def Let_def)

text \<open>
  C9. Registration seeds \<open>solved_ids\<close> from the feed and leaves
  \<open>user_flag_ids\<close> empty. A user registered while the feed holds the user flag
  of a machine gets that old user flag announced by the next cycle over the
  same feed: the activity is not already processed, a notification is sent and
  the ledger is saved again. No counter moves.
\<close>

theorem old_user_flag_announced_after_registration:
  "track (feed [lame_user]) ''1'' ''neo'' 7 \<lparr>mem = [], disk = [], saves = 0, sent = []\<rparr> =
     \<lparr>mem = [(''1'', neo\<lparr>solved_ids := [5]\<rparr>)], disk = [(''1'', neo\<lparr>solved_ids := [5]\<rparr>)],
      saves = 1, sent = []\<rparr>
 \<and> check_htb_activity True (feed [lame_user]) delivered
     \<lparr>mem = [(''1'', neo\<lparr>solved_ids := [5]\<rparr>)], disk = [(''1'', neo\<lparr>solved_ids := [5]\<rparr>)],
      saves = 1, sent = []\<rparr> =
     Inr \<lparr>mem = [(''1'', neo\<lparr>solved_ids := [5], user_flag_ids := [''5_user'']\<rparr>)],
          disk = [(''1'', neo\<lparr>solved_ids := [5], user_flag_ids := [''5_user'']\<rparr>)],
          saves = 2,
          sent = [Activity \<lparr>n_display = UserFlag, n_name = Some ''Lame'', m_prog = 0, c_prog = 0,
                            n_streak = 0\<rparr>]\<rparr>"
  by (simp add: track_def Let_def ingest_defs user_flag_key_5)

section \<open>Properties of the reconciliation\<close>

lemma collect_activity_keys:
  "fst ` set (fst (collect_activity S U a acc)) =
     fst ` set (fst acc) \<union>
     (if a_object_type a = Some ''machine'' \<and> a_type a = Some ''root''
         \<and> a_id a \<in> S \<and> a_id a \<notin> U
      then {a_id a} else {})"
  by (cases acc) (auto simp: collect_activity_def AList.dom_update)

lemma collect_activity_distinct:
  "distinct (map fst (fst acc)) \<Longrightarrow> distinct (map fst (fst (collect_activity S U a acc)))"
  by (cases acc) (auto simp: collect_activity_def AList.distinct_update)

lemma collect_activity_challenges:
  "snd (collect_activity S U a acc) =
     snd acc \<union>
     (if \<not> (a_object_type a = Some ''machine'' \<and> a_type a = Some ''root'')
         \<and> a_object_type a = Some ''challenge'' \<and> a_id a \<in> S
      then {a_id a} else {})"
  by (cases acc) (auto simp: collect_activity_def)

lemma fold_collect_keys:
  "fst ` set (fst (fold (collect_activity S U) as acc)) =
     fst ` set (fst acc) \<union>
     {a_id a |a. a \<in> set as \<and> a_object_type a = Some ''machine'' \<and> a_type a = Some ''root''
                 \<and> a_id a \<in> S \<and> a_id a \<notin> U}"
proof (induction as arbitrary: acc)
  case Nil
  then show ?case by simp
next
  case (Cons a as)
  show ?case
    unfolding fold_simps Cons.IH collect_activity_keys by auto
qed

lemma fold_collect_distinct:
  "distinct (map fst (fst acc)) \<Longrightarrow> distinct (map fst (fst (fold (collect_activity S U) as acc)))"
  by (induction as arbitrary: acc) (simp_all add: collect_activity_distinct)

lemma fold_collect_challenges:
  "snd (fold (collect_activity S U) as acc) =
     snd acc \<union> {a_id a |a. a \<in> set as \<and> a_object_type a = Some ''challenge'' \<and> a_id a \<in> S}"
proof (induction as arbitrary: acc)
  case Nil
  then show ?case by simp
next
  case (Cons a as)
  show ?case
    unfolding fold_simps Cons.IH collect_activity_challenges by auto
qed

lemma collect_keys:
  "set (map fst (fst (collect u as))) =
     {a_id a |a. a \<in> set as \<and> a_object_type a = Some ''machine'' \<and> a_type a = Some ''root''
                 \<and> a_id a \<in> set (solved_ids u)
                 \<and> a_id a \<notin> user_flag_machine_ids (user_flag_ids u)}"
  unfolding collect_def set_map fold_collect_keys by simp

lemma collect_distinct: "distinct (map fst (fst (collect u as)))"
  unfolding collect_def by (rule fold_collect_distinct) simp

lemma collect_challenges:
  "snd (collect u as) =
     {a_id a |a. a \<in> set as \<and> a_object_type a = Some ''challenge'' \<and> a_id a \<in> set (solved_ids u)}"
  unfolding collect_def fold_collect_challenges by simp

lemma update_root_flags_count:
  assumes "distinct (map fst rf)"
  shows "machines (fst (update_root_flags u rf)) =
           card (set (root_flag_ids (fst (update_root_flags u rf))))
       \<and> set (root_flag_ids (fst (update_root_flags u rf))) = set (map fst rf)"
proof (cases "rf = []")
  case True
  then show ?thesis by (simp add: update_root_flags_def)
next
  case False
  have "card (set (map fst rf)) = length (map fst rf)"
    by (rule distinct_card[OF assms])
  then have len: "length rf = card (fst ` set rf)" by simp
  show ?thesis
  proof (cases "sort (map fst rf) = sort (root_flag_ids u)")
    case True
    then have "set (sort (map fst rf)) = set (sort (root_flag_ids u))" by simp
    then have st: "set (root_flag_ids u) = set (map fst rf)" by (simp only: set_sort)
    have "length (sort (map fst rf)) = length (sort (root_flag_ids u))" using True by simp
    then have ln: "length (root_flag_ids u) = length rf" by simp
    from False True len st ln show ?thesis by (simp add: update_root_flags_def Let_def)
  next
    case neq: False
    with False len show ?thesis by (simp add: update_root_flags_def Let_def)
  qed
qed

lemma update_challenges_fields:
  "challenges (fst (update_challenges st ch)) = card ch"
  "machines (fst (update_challenges st ch)) = machines (fst st)"
  "root_flag_ids (fst (update_challenges st ch)) = root_flag_ids (fst st)"
  "solved_ids (fst (update_challenges st ch)) = solved_ids (fst st)"
  "user_flag_ids (fst (update_challenges st ch)) = user_flag_ids (fst st)"
  by (cases st; simp add: update_challenges_def Let_def)+

lemma update_root_flags_fields:
  "solved_ids (fst (update_root_flags u rf)) = solved_ids u"
  "user_flag_ids (fst (update_root_flags u rf)) = user_flag_ids u"
  "challenges (fst (update_root_flags u rf)) = challenges u"
  by (simp_all add: update_root_flags_def Let_def)

lemma reconcile_user_unfold:
  assumes "activities \<noteq> []"
  shows "reconcile_user u (Some activities) =
           update_challenges (update_root_flags u (fst (collect u activities)))
                             (snd (collect u activities))"
  using assms by (simp add: reconcile_user_def case_prod_beta)

lemma reconcile_user_machines:
  assumes "activities \<noteq> []"
  shows "machines (fst (reconcile_user u (Some activities))) =
           card (set (root_flag_ids (fst (reconcile_user u (Some activities)))))
       \<and> set (root_flag_ids (fst (reconcile_user u (Some activities)))) =
           {a_id a |a. a \<in> set activities \<and> a_object_type a = Some ''machine''
                       \<and> a_type a = Some ''root'' \<and> a_id a \<in> set (solved_ids u)
                       \<and> a_id a \<notin> user_flag_machine_ids (user_flag_ids u)}"
  unfolding reconcile_user_unfold[OF assms] update_challenges_fields
  using update_root_flags_count[OF collect_distinct, of u u activities] collect_keys[of u activities]
  by simp

text \<open>
  C6, as amended. After the reconciliation of a user whose history was fetched
  and is not empty, \<open>machines\<close> is the number of distinct identifiers in \<open>root_flag_ids\<close>,
  and \<open>challenges\<close> is the number of distinct challenge identifiers of the
  history that are among the user's solved ones.
\<close>

theorem reconciled_counters:
  assumes "activities \<noteq> []"
  shows "machines (fst (reconcile_user u (Some activities))) =
           card (set (root_flag_ids (fst (reconcile_user u (Some activities)))))
       \<and> challenges (fst (reconcile_user u (Some activities))) =
           card {a_id a |a. a \<in> set activities \<and> a_object_type a = Some ''challenge''
                            \<and> a_id a \<in> set (solved_ids u)}"
proof -
  have "challenges (fst (reconcile_user u (Some activities))) = card (snd (collect u activities))"
    unfolding reconcile_user_unfold[OF assms] update_challenges_fields ..
  then show ?thesis
    using reconcile_user_machines[OF assms, of u] by (simp add: collect_challenges)
qed

theorem reconciled_counters_witness:
  "machines (fst (reconcile_user (neo\<lparr>machines := 3, solved_ids := [5, 9]\<rparr>) (Some [puzzle, lame_root]))) =
     card (set (root_flag_ids (fst (reconcile_user (neo\<lparr>machines := 3, solved_ids := [5, 9]\<rparr>) (Some [puzzle, lame_root])))))"
  using reconciled_counters[of "[puzzle, lame_root]" "neo\<lparr>machines := 3, solved_ids := [5, 9]\<rparr>"]
  by simp

text \<open>
  The claim C6 as it was stated, after any pass, fails for a user whose fetch
  fails or returns nothing: the user is skipped. A user with one root flag
  recorded and \<open>machines\<close> back at zero (as the weekly reset leaves it) keeps
  \<open>machines = 0\<close> beside one identifier in \<open>root_flag_ids\<close>.
\<close>

theorem skipped_user_keeps_drift:
  "check_root_flags_manual no_feed
     \<lparr>mem = [(''1'', neo\<lparr>solved_ids := [5], root_flag_ids := [5]\<rparr>)],
      disk = [(''1'', neo\<lparr>solved_ids := [5], root_flag_ids := [5]\<rparr>)], saves = 0, sent = []\<rparr> =
     \<lparr>mem = [(''1'', neo\<lparr>solved_ids := [5], root_flag_ids := [5]\<rparr>)],
      disk = [(''1'', neo\<lparr>solved_ids := [5], root_flag_ids := [5]\<rparr>)], saves = 0, sent = []\<rparr>
 \<and> check_root_flags_manual (feed [])
     \<lparr>mem = [(''1'', neo\<lparr>solved_ids := [5], root_flag_ids := [5]\<rparr>)],
      disk = [(''1'', neo\<lparr>solved_ids := [5], root_flag_ids := [5]\<rparr>)], saves = 0, sent = []\<rparr> =
     \<lparr>mem = [(''1'', neo\<lparr>solved_ids := [5], root_flag_ids := [5]\<rparr>)],
      disk = [(''1'', neo\<lparr>solved_ids := [5], root_flag_ids := [5]\<rparr>)], saves = 0, sent = []\<rparr>
 \<and> machines (neo\<lparr>solved_ids := [5], root_flag_ids := [5]\<rparr>) = 0
 \<and> card (set (root_flag_ids (neo\<lparr>solved_ids := [5], root_flag_ids := [5]\<rparr>))) = 1"
  by (simp add: reconcile_defs)

lemma sort_sort: "sort (sort xs) = sort (xs :: int list)"
  by (rule sorted_sort_id) simp

lemma update_root_flags_idem:
  "update_root_flags (fst (update_root_flags u rf)) rf = (fst (update_root_flags u rf), False)"
proof (cases "rf = []")
  case True
  then show ?thesis by (simp add: update_root_flags_def)
next
  case False
  show ?thesis
  proof (cases "sort (map fst rf) = sort (root_flag_ids u)")
    case True
    then have e: "sort (root_flag_ids u) = sort (map fst rf)" by (rule sym)
    show ?thesis using False
      by (simp add: update_root_flags_def Let_def e)
  next
    case neq: False
    show ?thesis using False neq
      by (simp add: update_root_flags_def Let_def sort_sort)
  qed
qed

lemma update_root_flags_challenges:
  "update_root_flags (u\<lparr>challenges := c\<rparr>) rf =
     (fst (update_root_flags u rf)\<lparr>challenges := c\<rparr>, snd (update_root_flags u rf))"
  by (simp add: update_root_flags_def Let_def)

lemma reconcile_user_collect:
  "collect (fst (reconcile_user u f)) as = collect u as"
  unfolding collect_def
  by (auto simp: reconcile_user_def update_challenges_fields update_root_flags_fields
      split: option.splits prod.splits)

lemma reconcile_user_idem:
  "reconcile_user (fst (reconcile_user u f)) f = (fst (reconcile_user u f), False)"
proof (cases f)
  case None
  then show ?thesis by (simp add: reconcile_user_def)
next
  case (Some as)
  show ?thesis
  proof (cases "as = []")
    case True
    with Some show ?thesis by (simp add: reconcile_user_def)
  next
    case False
    obtain rf ch where c: "collect u as = (rf, ch)"
      by (cases "collect u as")
    have c': "collect (fst (reconcile_user u (Some as))) as = (rf, ch)"
      using reconcile_user_collect[of u "Some as" as] c by simp
    have r: "reconcile_user u (Some as) = update_challenges (update_root_flags u rf) ch"
      using False c by (simp add: reconcile_user_def)
    obtain v n where v: "update_root_flags u rf = (v, n)"
      by (cases "update_root_flags u rf")
    have vi: "update_root_flags v rf = (v, False)"
      using update_root_flags_idem[of u rf] v by simp
    have "reconcile_user (fst (reconcile_user u (Some as))) (Some as) =
            update_challenges (update_root_flags (fst (reconcile_user u (Some as))) rf) ch"
      using False c' by (simp add: reconcile_user_def)
    also have "\<dots> = (fst (reconcile_user u (Some as)), False)"
      unfolding r v using vi
      by (auto simp: update_challenges_def Let_def update_root_flags_challenges)
    finally show ?thesis using Some by simp
  qed
qed

lemma reconcile_loop_map:
  "fst (reconcile_loop fetch us n) = map (\<lambda>(k, u). (k, fst (reconcile_user u (fetch k)))) us"
proof (induction us arbitrary: n)
  case Nil
  then show ?case by simp
next
  case (Cons p us)
  obtain k u where p: "p = (k, u)" by (cases p)
  obtain u' b where r: "reconcile_user u (fetch k) = (u', b)"
    by (cases "reconcile_user u (fetch k)")
  obtain us' c where l: "reconcile_loop fetch us (if b then n + 1 else n) = (us', c)"
    by (cases "reconcile_loop fetch us (if b then n + 1 else n)")
  have "us' = map (\<lambda>(k, u). (k, fst (reconcile_user u (fetch k)))) us"
    using Cons.IH[of "if b then n + 1 else n"] l by simp
  then show ?case using p r l by simp
qed

lemma reconcile_loop_idem:
  "reconcile_loop fetch (fst (reconcile_loop fetch us m)) n = (fst (reconcile_loop fetch us m), n)"
proof (induction us arbitrary: m n)
  case Nil
  then show ?case by simp
next
  case (Cons p us)
  obtain k u where p: "p = (k, u)" by (cases p)
  obtain u' b where r: "reconcile_user u (fetch k) = (u', b)"
    by (cases "reconcile_user u (fetch k)")
  have i: "reconcile_user u' (fetch k) = (u', False)"
    using reconcile_user_idem[of u "fetch k"] r by simp
  obtain us' c where l: "reconcile_loop fetch us (if b then m + 1 else m) = (us', c)"
    by (cases "reconcile_loop fetch us (if b then m + 1 else m)")
  have "reconcile_loop fetch us' n = (us', n)"
    using Cons.IH[of "if b then m + 1 else m" n] l by simp
  then show ?case using p r i l by simp
qed

text \<open>
  C7. Running the reconciliation a second time against the same fetched
  histories changes nothing: every user record is what the first run left, and
  the second run does not save.
\<close>

theorem reconciliation_fixed_point:
  "check_root_flags_manual fetch (check_root_flags_manual fetch s) = check_root_flags_manual fetch s"
proof (cases "mem s = []")
  case True
  then show ?thesis by (simp add: check_root_flags_manual_def)
next
  case False
  obtain us n where l: "reconcile_loop fetch (mem s) 0 = (us, n)"
    by (cases "reconcile_loop fetch (mem s) 0")
  have ne: "us \<noteq> []"
    using reconcile_loop_map[of fetch "mem s" 0] l False by auto
  have i: "reconcile_loop fetch us 0 = (us, 0)"
    using reconcile_loop_idem[of fetch "mem s" 0 0] l by simp
  show ?thesis using False l ne i
    by (simp add: check_root_flags_manual_def save_db_def Let_def)
qed

theorem reconciliation_fixed_point_witness:
  "check_root_flags_manual (feed [puzzle, lame_root])
     (check_root_flags_manual (feed [puzzle, lame_root]) sys0) =
   check_root_flags_manual (feed [puzzle, lame_root]) sys0"
  using reconciliation_fixed_point[of "feed [puzzle, lame_root]" sys0] by simp

lemma update_root_flags_zeroed:
  assumes "(machines (fst (update_root_flags u rf)) = 0 \<and> machines u \<noteq> 0)
         \<or> (root_flag_ids (fst (update_root_flags u rf)) = [] \<and> root_flag_ids u \<noteq> [])"
  shows "rf = []"
proof (rule ccontr)
  assume ne: "rf \<noteq> []"
  then have "sort (map fst rf) \<noteq> []"
    by (metis length_sort length_map length_0_conv)
  with ne assms show False
    by (auto simp: update_root_flags_def Let_def split: if_splits)
qed

text \<open>
  C10. A fetch that fails or returns nothing leaves the user record as it is;
  every user of the ledger is reconciled against its own fetch, whatever
  happened to the users before it; and the machine count or the root-flag list
  of a user is emptied only when the fetched history is not empty and holds no
  root-flag activity of a machine that is among the solved identifiers and not
  among the machines of the recorded user flags.
\<close>

theorem failed_fetch_changes_nothing:
  "reconcile_user u None = (u, False)
 \<and> reconcile_user u (Some []) = (u, False)
 \<and> mem (check_root_flags_manual fetch s) =
       map (\<lambda>(k, v). (k, fst (reconcile_user v (fetch k)))) (mem s)
 \<and> ((machines (fst (reconcile_user u f)) = 0 \<and> machines u \<noteq> 0)
      \<or> (root_flag_ids (fst (reconcile_user u f)) = [] \<and> root_flag_ids u \<noteq> [])
    \<longrightarrow> (\<exists>activities. f = Some activities \<and> activities \<noteq> []
          \<and> \<not> (\<exists>a \<in> set activities.
                 a_object_type a = Some ''machine'' \<and> a_type a = Some ''root''
               \<and> a_id a \<in> set (solved_ids u)
               \<and> a_id a \<notin> user_flag_machine_ids (user_flag_ids u))))"
proof -
  have 1: "reconcile_user u None = (u, False)"
    by (simp add: reconcile_user_def)
  have 2: "reconcile_user u (Some []) = (u, False)"
    by (simp add: reconcile_user_def)
  have 3: "mem (check_root_flags_manual fetch s) =
       map (\<lambda>(k, v). (k, fst (reconcile_user v (fetch k)))) (mem s)"
  proof (cases "mem s = []")
    case True
    then show ?thesis by (simp add: check_root_flags_manual_def)
  next
    case False
    obtain us n where l: "reconcile_loop fetch (mem s) 0 = (us, n)"
      by (cases "reconcile_loop fetch (mem s) 0")
    have "us = map (\<lambda>(k, v). (k, fst (reconcile_user v (fetch k)))) (mem s)"
      using reconcile_loop_map[of fetch "mem s" 0] l by simp
    then show ?thesis using False l
      by (simp add: check_root_flags_manual_def save_db_def Let_def)
  qed
  have 4: "\<exists>activities. f = Some activities \<and> activities \<noteq> []
          \<and> \<not> (\<exists>a \<in> set activities.
                 a_object_type a = Some ''machine'' \<and> a_type a = Some ''root''
               \<and> a_id a \<in> set (solved_ids u)
               \<and> a_id a \<notin> user_flag_machine_ids (user_flag_ids u))"
    if z: "(machines (fst (reconcile_user u f)) = 0 \<and> machines u \<noteq> 0)
      \<or> (root_flag_ids (fst (reconcile_user u f)) = [] \<and> root_flag_ids u \<noteq> [])"
  proof (cases f)
    case None
    with z show ?thesis by (auto simp: reconcile_user_def)
  next
    case (Some as)
    have ne: "as \<noteq> []"
      using z Some by (auto simp: reconcile_user_def)
    have "fst (collect u as) = []"
      using z unfolding Some reconcile_user_unfold[OF ne] update_challenges_fields
      by (rule update_root_flags_zeroed)
    then have "set (map fst (fst (collect u as))) = {}" by simp
    then have "{a_id a |a. a \<in> set as \<and> a_object_type a = Some ''machine''
                  \<and> a_type a = Some ''root'' \<and> a_id a \<in> set (solved_ids u)
                  \<and> a_id a \<notin> user_flag_machine_ids (user_flag_ids u)} = {}"
      unfolding collect_keys .
    then show ?thesis using Some ne by blast
  qed
  from 1 2 3 4 show ?thesis by blast
qed

theorem failed_fetch_changes_nothing_witness:
  "machines (fst (reconcile_user
       (neo\<lparr>machines := 1, solved_ids := [5], user_flag_ids := [''5_user''], root_flag_ids := [5]\<rparr>)
       (Some [lame_root, lame_user]))) = 0
 \<and> reconcile_user (neo\<lparr>machines := 1\<rparr>) None = (neo\<lparr>machines := 1\<rparr>, False)
 \<and> (\<exists>activities. Some [lame_root, lame_user] = Some activities \<and> activities \<noteq> []
      \<and> \<not> (\<exists>a \<in> set activities.
             a_object_type a = Some ''machine'' \<and> a_type a = Some ''root''
           \<and> a_id a \<in> set (solved_ids (neo\<lparr>machines := 1, solved_ids := [5],
                   user_flag_ids := [''5_user''], root_flag_ids := [5]\<rparr>))
           \<and> a_id a \<notin> user_flag_machine_ids (user_flag_ids (neo\<lparr>machines := 1, solved_ids := [5],
                   user_flag_ids := [''5_user''], root_flag_ids := [5]\<rparr>))))"
proof -
  have h: "machines (fst (reconcile_user
       (neo\<lparr>machines := 1, solved_ids := [5], user_flag_ids := [''5_user''], root_flag_ids := [5]\<rparr>)
       (Some [lame_root, lame_user]))) = 0"
    by (simp add: reconcile_defs)
  show ?thesis
    using h
      failed_fetch_changes_nothing[of
        "neo\<lparr>machines := 1, solved_ids := [5], user_flag_ids := [''5_user''], root_flag_ids := [5]\<rparr>"
        no_feed sys0 "Some [lame_root, lame_user]"]
      failed_fetch_changes_nothing[of "neo\<lparr>machines := 1\<rparr>" no_feed sys0 None]
    by simp
qed





section \<open>Properties of the weekly reset\<close>

lemma reset_loop_result:
  "reset_loop us (c, f, l) =
     (map (\<lambda>(k, u). (k, u\<lparr>streak := (if goals_met (machines u) (challenges u) then streak u + 1 else 0),
                           machines := 0, challenges := 0\<rparr>)) us,
      c @ map (\<lambda>u. (name u, streak u + 1))
            (filter (\<lambda>u. goals_met (machines u) (challenges u)) (map snd us)),
      f @ map (\<lambda>u. (name u, machines u, challenges u))
            (filter (\<lambda>u. \<not> goals_met (machines u) (challenges u)) (map snd us)),
      l @ List.map_filter discord_id
            (filter (\<lambda>u. \<not> goals_met (machines u) (challenges u)) (map snd us)))"
proof (induction us arbitrary: c f l)
  case Nil
  then show ?case by (simp add: map_filter_simps)
next
  case (Cons p us)
  obtain k u where p: "p = (k, u)" by (cases p)
  show ?case
  proof (cases "goals_met (machines u) (challenges u)")
    case True
    then show ?thesis unfolding p
      by (simp add: reset_user_def Cons.IH)
  next
    case False
    then show ?thesis unfolding p
      by (cases "discord_id u") (simp_all add: reset_user_def Cons.IH map_filter_simps)
  qed
qed

text \<open>
  C4. One run of the reset that gets its messages delivered. The goals are met
  when each counter reaches its own goal. Every user keeps its place in the
  ledger with both counters at zero and the streak one higher when the goals
  were met, zero otherwise. The users who met the goals are reported with
  their new streak, the others with their counts, and the owners of the others
  are mentioned. The ledger is saved once, after all users, and the saved
  ledger is the one in memory.
\<close>

theorem weekly_reset:
  assumes "perform_reset_logic deliver s = Inr s'"
  shows "(\<forall>m c. goals_met m c = (1 \<le> m \<and> 2 \<le> c))
       \<and> mem s' = map (\<lambda>(k, u). (k, u\<lparr>streak := (if goals_met (machines u) (challenges u)
                                                  then streak u + 1 else 0),
                                      machines := 0, challenges := 0\<rparr>)) (mem s)
       \<and> disk s' = mem s' \<and> saves s' = saves s + 1
       \<and> sent s' = sent s
            @ [Report (map (\<lambda>u. (name u, streak u + 1))
                         (filter (\<lambda>u. goals_met (machines u) (challenges u)) (map snd (mem s))))
                      (map (\<lambda>u. (name u, machines u, challenges u))
                         (filter (\<lambda>u. \<not> goals_met (machines u) (challenges u)) (map snd (mem s))))]
            @ (if List.map_filter discord_id
                    (filter (\<lambda>u. \<not> goals_met (machines u) (challenges u)) (map snd (mem s))) = []
               then []
               else [Shame (List.map_filter discord_id
                      (filter (\<lambda>u. \<not> goals_met (machines u) (challenges u)) (map snd (mem s))))])"
proof -
  have g: "\<forall>m c. goals_met m c = (1 \<le> m \<and> 2 \<le> c)"
    by (simp add: goals_met_def GOAL_MACHINES_def GOAL_CHALLENGES_def)
  have r: "reset_loop (mem s) ([], [], []) = 
     (map (\<lambda>(k, u). (k, u\<lparr>streak := (if goals_met (machines u) (challenges u) then streak u + 1 else 0),
                           machines := 0, challenges := 0\<rparr>)) (mem s),
      map (\<lambda>u. (name u, streak u + 1))
            (filter (\<lambda>u. goals_met (machines u) (challenges u)) (map snd (mem s))),
      map (\<lambda>u. (name u, machines u, challenges u))
            (filter (\<lambda>u. \<not> goals_met (machines u) (challenges u)) (map snd (mem s))),
      List.map_filter discord_id
            (filter (\<lambda>u. \<not> goals_met (machines u) (challenges u)) (map snd (mem s))))"
    using reset_loop_result[of "mem s" "[]" "[]" "[]"] by simp
  have "mem s' = map (\<lambda>(k, u). (k, u\<lparr>streak := (if goals_met (machines u) (challenges u)
                                                  then streak u + 1 else 0),
                                      machines := 0, challenges := 0\<rparr>)) (mem s)
       \<and> disk s' = mem s' \<and> saves s' = saves s + 1
       \<and> sent s' = sent s
            @ [Report (map (\<lambda>u. (name u, streak u + 1))
                         (filter (\<lambda>u. goals_met (machines u) (challenges u)) (map snd (mem s))))
                      (map (\<lambda>u. (name u, machines u, challenges u))
                         (filter (\<lambda>u. \<not> goals_met (machines u) (challenges u)) (map snd (mem s))))]
            @ (if List.map_filter discord_id
                    (filter (\<lambda>u. \<not> goals_met (machines u) (challenges u)) (map snd (mem s))) = []
               then []
               else [Shame (List.map_filter discord_id
                      (filter (\<lambda>u. \<not> goals_met (machines u) (challenges u)) (map snd (mem s))))])"
    using assms unfolding perform_reset_logic_def r
    by (auto simp: Let_def send_def save_db_def split: if_splits)
  with g show ?thesis by blast
qed

theorem weekly_reset_witness:
  "perform_reset_logic delivered
     \<lparr>mem = [(''1'', neo\<lparr>machines := 1, challenges := 2, streak := 3\<rparr>),
             (''2'', neo\<lparr>name := ''trinity'', machines := 1, challenges := 1, streak := 3\<rparr>)],
      disk = [], saves = 0, sent = []\<rparr> =
   Inr \<lparr>mem = [(''1'', neo\<lparr>streak := 4\<rparr>), (''2'', neo\<lparr>name := ''trinity''\<rparr>)],
        disk = [(''1'', neo\<lparr>streak := 4\<rparr>), (''2'', neo\<lparr>name := ''trinity''\<rparr>)],
        saves = 1,
        sent = [Report [(''neo'', 4)] [(''trinity'', 1, 1)], Shame [7]]\<rparr>
 \<and> goals_met 1 2 \<and> \<not> goals_met 1 1 \<and> \<not> goals_met 0 3"
proof -
  have h: "perform_reset_logic delivered
     \<lparr>mem = [(''1'', neo\<lparr>machines := 1, challenges := 2, streak := 3\<rparr>),
             (''2'', neo\<lparr>name := ''trinity'', machines := 1, challenges := 1, streak := 3\<rparr>)],
      disk = [], saves = 0, sent = []\<rparr> =
   Inr \<lparr>mem = [(''1'', neo\<lparr>streak := 4\<rparr>), (''2'', neo\<lparr>name := ''trinity''\<rparr>)],
        disk = [(''1'', neo\<lparr>streak := 4\<rparr>), (''2'', neo\<lparr>name := ''trinity''\<rparr>)],
        saves = 1,
        sent = [Report [(''neo'', 4)] [(''trinity'', 1, 1)], Shame [7]]\<rparr>"
    by (simp add: reset_defs send_def save_db_def)
  have g: "\<forall>m c. goals_met m c = (1 \<le> m \<and> 2 \<le> c)"
    using weekly_reset[OF h] by (rule conjunct1)
  have "goals_met 1 2" "\<not> goals_met 1 1" "\<not> goals_met 0 3"
    using g by simp_all
  with h show ?thesis by (intro conjI)
qed

lemma reset_saved_before_report:
  assumes "perform_reset_logic deliver s = Inl (e, s')"
  shows "disk s' = mem s' \<and> saves s' = saves s + 1"
  using assms
  by (auto simp: perform_reset_logic_def send_def save_db_def Let_def
      split: prod.splits if_splits)

section \<open>Properties of the reset scheduler\<close>

lemma reset_saves_once:
  "saves (state_after (perform_reset_logic deliver s)) = saves s + 1"
  by (auto simp: perform_reset_logic_def state_after_def send_def save_db_def Let_def
      split: prod.splits)

lemma reset_returns_when_delivered:
  assumes "\<forall>m. deliver m"
  shows "\<exists>s'. perform_reset_logic deliver s = Inr s'"
  using assms
  by (auto simp: perform_reset_logic_def send_def Let_def split: prod.splits)

lemma body_fired:
  "saves (state_after (scheduled_weekly_reset c deliver t s)) =
     (if weekday t = 5 \<and> c then saves s + 1 else saves s)"
  by (simp add: scheduled_weekly_reset_def reset_saves_once) (simp add: state_after_def)

lemma scheduler_task_dates:
  "\<exists>k. fst (scheduler_task channel deliver runs s) =
        map ordinal (filter (\<lambda>t. weekday t = 5 \<and> channel t) (take k runs))"
proof (induction runs arbitrary: s)
  case Nil
  then show ?case by simp
next
  case (Cons t runs)
  show ?case
  proof (cases "scheduled_weekly_reset (channel t) deliver t s")
    case (Inl e)
    have "fst (scheduler_task channel deliver (t # runs) s) =
            map ordinal (filter (\<lambda>t. weekday t = 5 \<and> channel t) (take 1 (t # runs)))"
      using Inl body_fired[of "channel t" deliver t s] by (auto simp: Let_def)
    then show ?thesis by blast
  next
    case (Inr s')
    obtain k where k: "fst (scheduler_task channel deliver runs s') =
        map ordinal (filter (\<lambda>t. weekday t = 5 \<and> channel t) (take k runs))"
      using Cons.IH[of s'] by blast
    have "fst (scheduler_task channel deliver (t # runs) s) =
            map ordinal (filter (\<lambda>t. weekday t = 5 \<and> channel t) (take (Suc k) (t # runs)))"
      using Inr k body_fired[of "channel t" deliver t s]
      by (auto simp: Let_def split: prod.splits)
    then show ?thesis by blast
  qed
qed

lemma scheduler_task_delivered:
  assumes "\<forall>m. deliver m"
  shows "fst (scheduler_task channel deliver runs s) =
        map ordinal (filter (\<lambda>t. weekday t = 5 \<and> channel t) runs)"
proof (induction runs arbitrary: s)
  case Nil
  then show ?case by simp
next
  case (Cons t runs)
  have "\<exists>s'. scheduled_weekly_reset (channel t) deliver t s = Inr s'"
    using reset_returns_when_delivered[OF assms, of s]
    by (simp add: scheduled_weekly_reset_def)
  then obtain s' where s': "scheduled_weekly_reset (channel t) deliver t s = Inr s'"
    by blast
  show ?case
    using s' Cons.IH[of s'] body_fired[of "channel t" deliver t s]
    by (auto simp: Let_def split: prod.splits)
qed

lemma daily_distinct:
  assumes "daily_at_21 runs"
  shows "distinct (map ordinal (filter P (take k runs)))"
proof -
  have "sorted_wrt (\<lambda>t t'. ordinal t < ordinal t') runs"
    using assms by (simp add: daily_at_21_def)
  then have "sorted_wrt (<) (map ordinal runs)"
    by (simp add: sorted_wrt_map)
  then have "distinct (map ordinal runs)"
    by (simp add: strict_sorted_iff)
  then have "distinct (map ordinal (take k runs))"
    by (simp add: take_map[symmetric] distinct_take del: take_map)
  then show ?thesis
    by (simp add: distinct_map_filter)
qed

text \<open>
  C5, as amended. The reset fires at most once per calendar day, and only on
  a Saturday: over the runs of the task, one per calendar day at 21:00 local
  time, no date is a reset date twice, and every reset date is the date of a
  run on a Saturday that found the channel. When every message is delivered
  the reset dates are exactly the dates of those runs. A run decides on the
  weekday and the channel alone: two runs from the same state on the same
  weekday end alike, whatever their date and time of day, and a run resets
  (saves the ledger, once) exactly when it is a Saturday and the channel is
  found.
\<close>

theorem reset_once_per_saturday:
  assumes "daily_at_21 runs"
  shows "distinct (fst (scheduler_task channel deliver runs s))
       \<and> (\<forall>d \<in> set (fst (scheduler_task channel deliver runs s)).
             \<exists>t \<in> set runs. ordinal t = d \<and> weekday t = 5 \<and> channel t)
       \<and> ((\<forall>m. deliver m) \<longrightarrow>
             fst (scheduler_task channel deliver runs s) =
               map ordinal (filter (\<lambda>t. weekday t = 5 \<and> channel t) runs))
       \<and> (\<forall>c t t'. weekday t = weekday t' \<longrightarrow>
             scheduled_weekly_reset c deliver t s = scheduled_weekly_reset c deliver t' s)
       \<and> (\<forall>c t. saves (state_after (scheduled_weekly_reset c deliver t s)) =
             (if weekday t = 5 \<and> c then saves s + 1 else saves s))"
proof -
  obtain k where k: "fst (scheduler_task channel deliver runs s) =
        map ordinal (filter (\<lambda>t. weekday t = 5 \<and> channel t) (take k runs))"
    using scheduler_task_dates[of channel deliver runs s] by blast
  have 1: "distinct (fst (scheduler_task channel deliver runs s))"
    unfolding k using assms by (rule daily_distinct)
  have 2: "\<forall>d \<in> set (fst (scheduler_task channel deliver runs s)).
             \<exists>t \<in> set runs. ordinal t = d \<and> weekday t = 5 \<and> channel t"
    unfolding k by (auto dest: in_set_takeD)
  have 3: "(\<forall>m. deliver m) \<longrightarrow>
             fst (scheduler_task channel deliver runs s) =
               map ordinal (filter (\<lambda>t. weekday t = 5 \<and> channel t) runs)"
    using scheduler_task_delivered[of deliver channel runs s] by blast
  have 4: "\<forall>c t t'. weekday t = weekday t' \<longrightarrow>
             scheduled_weekly_reset c deliver t s = scheduled_weekly_reset c deliver t' s"
    by (simp add: scheduled_weekly_reset_def)
  have 5: "\<forall>c t. saves (state_after (scheduled_weekly_reset c deliver t s)) =
             (if weekday t = 5 \<and> c then saves s + 1 else saves s)"
    by (simp add: body_fired)
  from 1 2 3 4 5 show ?thesis by blast
qed

theorem reset_once_per_saturday_witness:
  "daily_at_21 [\<lparr>ordinal = 739254, hour = 21, minute = 0\<rparr>, \<lparr>ordinal = 739255, hour = 21, minute = 0\<rparr>,
                \<lparr>ordinal = 739256, hour = 21, minute = 0\<rparr>, \<lparr>ordinal = 739262, hour = 21, minute = 0\<rparr>]
 \<and> fst (scheduler_task found delivered
        [\<lparr>ordinal = 739254, hour = 21, minute = 0\<rparr>, \<lparr>ordinal = 739255, hour = 21, minute = 0\<rparr>,
         \<lparr>ordinal = 739256, hour = 21, minute = 0\<rparr>, \<lparr>ordinal = 739262, hour = 21, minute = 0\<rparr>]
        sys0) = [739255, 739262]"
proof -
  have h: "daily_at_21 [\<lparr>ordinal = 739254, hour = 21, minute = 0\<rparr>,
                        \<lparr>ordinal = 739255, hour = 21, minute = 0\<rparr>,
                        \<lparr>ordinal = 739256, hour = 21, minute = 0\<rparr>,
                        \<lparr>ordinal = 739262, hour = 21, minute = 0\<rparr>]"
    by (simp add: daily_at_21_def)
  have "fst (scheduler_task found delivered
        [\<lparr>ordinal = 739254, hour = 21, minute = 0\<rparr>, \<lparr>ordinal = 739255, hour = 21, minute = 0\<rparr>,
         \<lparr>ordinal = 739256, hour = 21, minute = 0\<rparr>, \<lparr>ordinal = 739262, hour = 21, minute = 0\<rparr>]
        sys0) =
      map ordinal (filter (\<lambda>t. weekday t = 5 \<and> found t)
        [\<lparr>ordinal = 739254, hour = 21, minute = 0\<rparr>, \<lparr>ordinal = 739255, hour = 21, minute = 0\<rparr>,
         \<lparr>ordinal = 739256, hour = 21, minute = 0\<rparr>, \<lparr>ordinal = 739262, hour = 21, minute = 0\<rparr>])"
    using reset_once_per_saturday[OF h, of found delivered sys0, THEN conjunct2, THEN conjunct2,
        THEN conjunct1]
    by simp
  then show ?thesis using h by (simp add: weekday_def)
qed

text \<open>
  The claim C5 as it was stated has each firing run record its date as the
  last-fired date and later runs check it. No date is recorded: the run of
  Saturday 4 January 2025 and the run of Saturday 11 January 2025, from the
  same state, end in the same state.
\<close>

theorem no_fired_date_recorded:
  "scheduled_weekly_reset True delivered \<lparr>ordinal = 739255, hour = 21, minute = 0\<rparr>
     \<lparr>mem = [(''1'', neo\<lparr>machines := 1, challenges := 2, streak := 3\<rparr>)],
      disk = [(''1'', neo\<lparr>machines := 1, challenges := 2, streak := 3\<rparr>)],
      saves = 0, sent = []\<rparr> =
   Inr \<lparr>mem = [(''1'', neo\<lparr>streak := 4\<rparr>)], disk = [(''1'', neo\<lparr>streak := 4\<rparr>)], saves = 1,
        sent = [Report [(''neo'', 4)] []]\<rparr>
 \<and> scheduled_weekly_reset True delivered \<lparr>ordinal = 739262, hour = 21, minute = 0\<rparr>
     \<lparr>mem = [(''1'', neo\<lparr>machines := 1, challenges := 2, streak := 3\<rparr>)],
      disk = [(''1'', neo\<lparr>machines := 1, challenges := 2, streak := 3\<rparr>)],
      saves = 0, sent = []\<rparr> =
   Inr \<lparr>mem = [(''1'', neo\<lparr>streak := 4\<rparr>)], disk = [(''1'', neo\<lparr>streak := 4\<rparr>)], saves = 1,
        sent = [Report [(''neo'', 4)] []]\<rparr>"
  by (simp add: reset_defs send_def save_db_def)

end
